theory Spec2Isabelle
  imports Main "HOL-Library.Word" "HOL-Library.AList"
begin

section \<open>The country table of \<open>qraph.jsx\<close>\<close>

text \<open>
  The component \<open>Countries\<close> of \<open>src/Apollo Country/src/qraph.jsx\<close> receives the list
  \<open>data.countries\<close> and derives, on every render, the rows of the table from its state:
  sort column and direction, page, rows per page and the per-column filter texts. This
  theory embeds the derived-state computation (\<open>descendingComparator\<close>, \<open>getComparator\<close>,
  \<open>stableSort\<close>, \<open>applyFilters\<close>, the page slice, \<open>emptyRows\<close>), the event handlers and the
  rows written by \<open>exportToExcel\<close>.
\<close>

subsection \<open>Values\<close>

text \<open>
  A JavaScript string is a sequence of 16-bit code units. \<open>str\<close> writes an ASCII literal.
\<close>

type_synonym jsstring = "16 word list"

definition str :: "string \<Rightarrow> jsstring" where
  "str s = map (\<lambda>c. of_nat (of_char c)) s"

text \<open>
  The query asks for \<open>capital\<close>, \<open>currency\<close>, \<open>name\<close>, \<open>native\<close>, \<open>emoji\<close> and
  \<open>languages {code, name}\<close>. \<open>capital\<close> and \<open>currency\<close> are optional: the value read from a
  record is a string, \<open>null\<close>, or \<open>undefined\<close>.
\<close>

datatype field = Undefined | Null | Text jsstring

record language =
  code :: jsstring
  name :: jsstring

record country =
  name :: jsstring
  native :: jsstring
  capital :: field
  currency :: field
  emoji :: jsstring
  languages :: "language list"

text \<open>The ids of \<open>headCells\<close>: the keys used for \<open>orderBy\<close> and for the filters.\<close>

datatype column = Name | Native | Capital | Languages | Currency

definition headCells :: "(column \<times> jsstring) list" where
  "headCells =
     [(Name, str ''Name''), (Native, str ''Native''), (Capital, str ''Capital''),
      (Languages, str ''Languages''), (Currency, str ''Currency'')]"

text \<open>The values that a property read \<open>country[key]\<close> yields.\<close>

datatype jsval = JUndefined | JNull | JStr jsstring | JArr "language list"

fun field_val :: "field \<Rightarrow> jsval" where
  "field_val Undefined = JUndefined"
| "field_val Null = JNull"
| "field_val (Text s) = JStr s"

fun get :: "country \<Rightarrow> column \<Rightarrow> jsval" where
  "get c Name = JStr (name c)"
| "get c Native = JStr (native c)"
| "get c Capital = field_val (capital c)"
| "get c Languages = JArr (languages c)"
| "get c Currency = field_val (currency c)"

text \<open>\<open>ToBoolean\<close>: \<open>undefined\<close>, \<open>null\<close> and the empty string are falsy, objects are truthy.\<close>

fun truthy :: "jsval \<Rightarrow> bool" where
  "truthy JUndefined = False"
| "truthy JNull = False"
| "truthy (JStr s) = (s \<noteq> [])"
| "truthy (JArr ls) = True"

text \<open>\<open>Array.prototype.join\<close> on strings.\<close>

fun join :: "jsstring \<Rightarrow> jsstring list \<Rightarrow> jsstring" where
  "join sep [] = []"
| "join sep [x] = x"
| "join sep (x # y # ys) = x @ sep @ join sep (y # ys)"

text \<open>
  \<open>ToPrimitive\<close>: an array is converted by \<open>Array.prototype.toString\<close>, the comma-joined
  strings of its elements, and a language object prints as \<open>[object Object]\<close>.
\<close>

fun ToPrimitive :: "jsval \<Rightarrow> jsval" where
  "ToPrimitive (JArr ls) = JStr (join (str '','') (map (\<lambda>l. str ''[object Object]'') ls))"
| "ToPrimitive v = v"

subsection \<open>The relational operators\<close>

text \<open>Two strings are compared code unit by code unit; a proper prefix is smaller.\<close>

fun string_less :: "jsstring \<Rightarrow> jsstring \<Rightarrow> bool" where
  "string_less [] [] = False"
| "string_less [] (y # ys) = True"
| "string_less (x # xs) [] = False"
| "string_less (x # xs) (y # ys) = (x < y \<or> (x = y \<and> string_less xs ys))"

text \<open>
  When an operand is not a string both are converted to numbers: \<open>null\<close> to \<open>0\<close>,
  \<open>undefined\<close> to \<open>NaN\<close>, a string by \<open>StringToNumber\<close>. Since the other operand is then \<open>0\<close>
  or \<open>NaN\<close>, only the class of the string's number matters; the conversion is a parameter
  \<open>num\<close> of the model, so that every result holds for each such function.
\<close>

datatype numclass = NaN | Negative | Zero | Positive

definition js_less :: "(jsstring \<Rightarrow> numclass) \<Rightarrow> jsval \<Rightarrow> jsval \<Rightarrow> bool" where
  "js_less num x y =
     (case (ToPrimitive x, ToPrimitive y) of
        (JStr s, JStr t) \<Rightarrow> string_less s t
      | (JNull, JStr t) \<Rightarrow> num t = Positive
      | (JStr s, JNull) \<Rightarrow> num s = Negative
      | _ \<Rightarrow> False)"

text \<open>\<open>x > y\<close> is \<open>y < x\<close>.\<close>

definition js_greater :: "(jsstring \<Rightarrow> numclass) \<Rightarrow> jsval \<Rightarrow> jsval \<Rightarrow> bool" where
  "js_greater num x y = js_less num y x"

subsection \<open>Sorting\<close>

definition descendingComparator ::
  "(jsstring \<Rightarrow> numclass) \<Rightarrow> country \<Rightarrow> country \<Rightarrow> column \<Rightarrow> int" where
  "descendingComparator num a b orderBy =
     (if js_less num (get b orderBy) (get a orderBy) then - 1
      else if js_greater num (get b orderBy) (get a orderBy) then 1
      else 0)"

datatype direction = Asc | Desc

definition getComparator ::
  "(jsstring \<Rightarrow> numclass) \<Rightarrow> direction \<Rightarrow> column \<Rightarrow> country \<Rightarrow> country \<Rightarrow> int" where
  "getComparator num order orderBy =
     (if order = Desc
      then (\<lambda>a b. descendingComparator num a b orderBy)
      else (\<lambda>a b. - descendingComparator num a b orderBy))"

text \<open>
  \<open>Array.prototype.sort\<close> with a comparator. For a comparator that is a consistent ordering
  of the elements the language fixes the result: the elements in ascending order, elements
  that compare equal in their original order. For any other comparator the order is left to
  the engine. The model is the stable insertion sort; lemma \<open>stableSort_any_sort\<close> below
  shows that on rows with a text in the sort column every sorted reordering of the index
  pairs is the one the model yields.
\<close>

fun sort_insert :: "('a \<Rightarrow> 'a \<Rightarrow> int) \<Rightarrow> 'a \<Rightarrow> 'a list \<Rightarrow> 'a list" where
  "sort_insert compareFn x [] = [x]"
| "sort_insert compareFn x (y # ys) =
     (if compareFn x y \<le> 0 then x # y # ys else y # sort_insert compareFn x ys)"

fun sort_js :: "('a \<Rightarrow> 'a \<Rightarrow> int) \<Rightarrow> 'a list \<Rightarrow> 'a list" where
  "sort_js compareFn [] = []"
| "sort_js compareFn (x # xs) = sort_insert compareFn x (sort_js compareFn xs)"

definition stableSort :: "'a list \<Rightarrow> ('a \<Rightarrow> 'a \<Rightarrow> int) \<Rightarrow> 'a list" where
  "stableSort array comparator =
     (let stabilizedThis = zip array [0 ..< length array];
          sorted = sort_js (\<lambda>a b. let order = comparator (fst a) (fst b)
                                   in if order \<noteq> 0 then order else int (snd a) - int (snd b))
                     stabilizedThis
      in map fst sorted)"

text \<open>The comparator that \<open>stableSort\<close> hands to \<open>sort\<close>, by name.\<close>

definition tieBreak :: "('a \<Rightarrow> 'a \<Rightarrow> int) \<Rightarrow> 'a \<times> nat \<Rightarrow> 'a \<times> nat \<Rightarrow> int" where
  "tieBreak comparator a b =
     (let order = comparator (fst a) (fst b)
      in if order \<noteq> 0 then order else int (snd a) - int (snd b))"

subsection \<open>Filtering\<close>

datatype error = TypeError

text \<open>
  \<open>v.toLowerCase()\<close> on a value read from an object: a \<open>TypeError\<close> unless \<open>v\<close> is a string.
  The case mapping itself is the parameter \<open>lower\<close>.
\<close>

fun toLowerCase :: "(jsstring \<Rightarrow> jsstring) \<Rightarrow> jsval \<Rightarrow> error + jsstring" where
  "toLowerCase lower (JStr s) = Inr (lower s)"
| "toLowerCase lower v = Inl TypeError"

text \<open>
  \<open>String.prototype.includes\<close>: some index \<open>i\<close> with \<open>0 \<le> i \<le> len - searchLen\<close> at which
  the search string occurs.
\<close>

definition includes_js :: "jsstring \<Rightarrow> jsstring \<Rightarrow> bool" where
  "includes_js s searchString =
     (length searchString \<le> length s \<and>
      list_ex (\<lambda>i. take (length searchString) (drop i s) = searchString)
        [0 ..< Suc (length s - length searchString)])"

text \<open>\<open>Array.prototype.every\<close> and \<open>filter\<close> with a callback that may throw.\<close>

fun every :: "('a \<Rightarrow> error + bool) \<Rightarrow> 'a list \<Rightarrow> error + bool" where
  "every p [] = Inr True"
| "every p (x # xs) =
     (case p x of Inl e \<Rightarrow> Inl e | Inr b \<Rightarrow> if b then every p xs else Inr False)"

fun filter_js :: "('a \<Rightarrow> error + bool) \<Rightarrow> 'a list \<Rightarrow> error + 'a list" where
  "filter_js p [] = Inr []"
| "filter_js p (x # xs) =
     (case p x of
        Inl e \<Rightarrow> Inl e
      | Inr b \<Rightarrow> (case filter_js p xs of
                    Inl e \<Rightarrow> Inl e
                  | Inr ys \<Rightarrow> Inr (if b then x # ys else ys)))"

text \<open>
  The filter state is an object whose keys are column ids, kept in insertion order.
  \<open>filters[filterKey]\<close> is \<open>undefined\<close> for an absent key.
\<close>

type_synonym filters = "(column \<times> jsstring) list"

definition lookup :: "filters \<Rightarrow> column \<Rightarrow> jsval" where
  "lookup filters filterKey =
     (case map_of filters filterKey of None \<Rightarrow> JUndefined | Some v \<Rightarrow> JStr v)"

text \<open>
  \<open>receiver.toLowerCase().includes(argument.toLowerCase())\<close>, the receiver evaluated first.
\<close>

definition lowerIncludes :: "(jsstring \<Rightarrow> jsstring) \<Rightarrow> jsval \<Rightarrow> jsval \<Rightarrow> error + bool" where
  "lowerIncludes lower receiver argument =
     (case toLowerCase lower receiver of
        Inl e \<Rightarrow> Inl e
      | Inr s \<Rightarrow> (case toLowerCase lower argument of
                   Inl e \<Rightarrow> Inl e
                 | Inr t \<Rightarrow> Inr (includes_js s t)))"

text \<open>
  The callback of \<open>every\<close> in \<open>applyFilters\<close>. Its result is read by \<open>every\<close> through
  \<open>ToBoolean\<close>: \<open>a && b\<close> evaluates \<open>b\<close> only for a truthy \<open>a\<close> and is the falsy \<open>a\<close> otherwise.
\<close>

definition filterMatches ::
  "(jsstring \<Rightarrow> jsstring) \<Rightarrow> filters \<Rightarrow> country \<Rightarrow> column \<Rightarrow> error + bool" where
  "filterMatches lower filters country filterKey =
     (if lookup filters filterKey = JStr [] then Inr True
      else if filterKey = Languages then
        (case toLowerCase lower (lookup filters filterKey) of
           Inl e \<Rightarrow> Inl e
         | Inr filterValue \<Rightarrow>
             (let countryLanguages = map (\<lambda>language. lower (language.name language))
                                       (languages country)
              in Inr (list_ex (\<lambda>language. includes_js language filterValue) countryLanguages)))
      else if filterKey = Currency then
        (if truthy (field_val (currency country))
         then lowerIncludes lower (field_val (currency country)) (lookup filters filterKey)
         else Inr False)
      else if filterKey = Capital then
        (if truthy (field_val (capital country))
         then lowerIncludes lower (field_val (capital country)) (lookup filters filterKey)
         else Inr False)
      else lowerIncludes lower (get country filterKey) (lookup filters filterKey))"

definition applyFilters ::
  "(jsstring \<Rightarrow> jsstring) \<Rightarrow> filters \<Rightarrow> country \<Rightarrow> error + bool" where
  "applyFilters lower filters country =
     every (filterMatches lower filters country) (map fst filters)"

subsection \<open>The component state and its handlers\<close>

text \<open>
  The five \<open>useState\<close> cells of \<open>Countries\<close>. \<open>order\<close> holds \<open>'asc'\<close> or \<open>'desc'\<close>; page
  and rows per page are the non-negative integers that the pagination control hands over.
\<close>

record state =
  order :: direction
  orderBy :: column
  page :: nat
  rowsPerPage :: nat
  filters :: filters

definition initial :: state where
  "initial =
     \<lparr>order = Asc, orderBy = Name, page = 0, rowsPerPage = 5,
      filters = [(Name, []), (Capital, []), (Currency, [])]\<rparr>"

definition rowsPerPageOptions :: "nat list" where
  "rowsPerPageOptions = [5, 10, 25, 50, 100, 251]"

definition handleRequestSort :: "state \<Rightarrow> column \<Rightarrow> state" where
  "handleRequestSort st property =
     (let isAsc = (orderBy st = property \<and> order st = Asc)
      in st\<lparr>order := (if isAsc then Desc else Asc), orderBy := property\<rparr>)"

definition handleChangePage :: "state \<Rightarrow> nat \<Rightarrow> state" where
  "handleChangePage st newPage = st\<lparr>page := newPage\<rparr>"

definition handleChangeRowsPerPage :: "state \<Rightarrow> nat \<Rightarrow> state" where
  "handleChangeRowsPerPage st n = st\<lparr>rowsPerPage := n, page := 0\<rparr>"

text \<open>
  \<open>{...filters, [filterKey]: value}\<close>: an existing key keeps its place and takes the new
  value, a new key is added at the end.
\<close>

definition handleFilterChange :: "state \<Rightarrow> column \<Rightarrow> jsstring \<Rightarrow> state" where
  "handleFilterChange st filterKey v = st\<lparr>filters := AList.update filterKey v (filters st)\<rparr>"

subsection \<open>The rendered table and the export\<close>

definition sortedAndFilteredData ::
  "(jsstring \<Rightarrow> jsstring) \<Rightarrow> (jsstring \<Rightarrow> numclass) \<Rightarrow> state \<Rightarrow> country list
     \<Rightarrow> error + country list" where
  "sortedAndFilteredData lower num st countries =
     filter_js (applyFilters lower (filters st))
       (stableSort countries (getComparator num (order st) (orderBy st)))"

text \<open>
  \<open>Array.prototype.slice\<close> for non-negative integer arguments: both ends are clamped to the
  length, and the result is empty when the start is not before the end.
\<close>

definition slice :: "'a list \<Rightarrow> nat \<Rightarrow> nat \<Rightarrow> 'a list" where
  "slice xs start end' =
     (let len = length xs; k = min start len; final = min end' len
      in take (final - k) (drop k xs))"

text \<open>The numbers involved are integers far below \<open>2\<^sup>5\<^sup>3\<close>, where the arithmetic is exact.\<close>

definition emptyRows :: "nat \<Rightarrow> nat \<Rightarrow> nat \<Rightarrow> int" where
  "emptyRows rowsPerPage' len page' =
     int rowsPerPage' - min (int rowsPerPage') (int len - int page' * int rowsPerPage')"

text \<open>
  The worksheet is the list of the rows added so far; \<open>addRow\<close> appends one. A cell holds
  the value it was given.
\<close>

type_synonym worksheet = "jsval list list"

definition addRow :: "worksheet \<Rightarrow> jsval list \<Rightarrow> worksheet" where
  "addRow worksheet r = worksheet @ [r]"

definition exportToExcel :: "country list \<Rightarrow> worksheet" where
  "exportToExcel rows =
     foldl (\<lambda>worksheet country.
              let languages' = join (str '', '') (map language.name (languages country))
              in addRow worksheet
                   [JStr (name country), field_val (capital country),
                    field_val (currency country), JStr languages'])
       (addRow [] [JStr (str ''Name''), JStr (str ''Capital''), JStr (str ''Currency''),
                   JStr (str ''Languages''), JStr (str ''Native'')])
       rows"

text \<open>
  What one render of \<open>Countries\<close> yields once the list has arrived: the rows of the table
  body, the number of padding rows, the count shown by the pagination control, and the
  worksheet that the export button writes.
\<close>

record view =
  body :: "country list"
  padding :: int
  count :: nat
  exported :: worksheet

definition Countries ::
  "(jsstring \<Rightarrow> jsstring) \<Rightarrow> (jsstring \<Rightarrow> numclass) \<Rightarrow> state \<Rightarrow> country list
     \<Rightarrow> error + view" where
  "Countries lower num st countries =
     (case sortedAndFilteredData lower num st countries of
        Inl e \<Rightarrow> Inl e
      | Inr rows \<Rightarrow>
          Inr \<lparr>body = slice rows (page st * rowsPerPage st)
                        (page st * rowsPerPage st + rowsPerPage st),
               padding = emptyRows (rowsPerPage st) (length rows) (page st),
               count = length rows,
               exported = exportToExcel rows\<rparr>)"

subsection \<open>The description of the table\<close>

text \<open>
  The description reads the filter as follows. A filter text matches a column value when the
  lower-cased value contains the lower-cased text as a substring; the languages column
  matches when some language name does; a capital or currency that is missing matches
  nothing. A row is kept when every non-empty filter matches it. These definitions follow
  the description, not the code; the suffix \<open>_spec\<close> marks them.
\<close>

definition containsText_spec :: "(jsstring \<Rightarrow> jsstring) \<Rightarrow> jsstring \<Rightarrow> jsstring \<Rightarrow> bool" where
  "containsText_spec lower v pat = (\<exists>before after. lower v = before @ lower pat @ after)"

definition matches_spec :: "(jsstring \<Rightarrow> jsstring) \<Rightarrow> column \<Rightarrow> jsstring \<Rightarrow> country \<Rightarrow> bool" where
  "matches_spec lower col pat c =
     (case col of
        Name \<Rightarrow> containsText_spec lower (name c) pat
      | Native \<Rightarrow> containsText_spec lower (native c) pat
      | Capital \<Rightarrow> (case capital c of Text v \<Rightarrow> containsText_spec lower v pat | _ \<Rightarrow> False)
      | Languages \<Rightarrow> (\<exists>l \<in> set (languages c). containsText_spec lower (language.name l) pat)
      | Currency \<Rightarrow> (case currency c of Text v \<Rightarrow> containsText_spec lower v pat | _ \<Rightarrow> False))"

definition kept_spec :: "(jsstring \<Rightarrow> jsstring) \<Rightarrow> filters \<Rightarrow> country \<Rightarrow> bool" where
  "kept_spec lower fs c =
     (\<forall>col \<in> set (map fst fs). \<forall>pat. map_of fs col = Some pat \<longrightarrow> pat \<noteq> [] \<longrightarrow> matches_spec lower col pat c)"

text \<open>
  The description derives the visible rows by filtering the full list, sorting the filtered
  rows, and taking the slice of the current page; \<open>pageCount_spec\<close> is the number of pages
  \<open>ceil(n / pageSize)\<close> for a positive page size.
\<close>

definition visibleRows_spec ::
  "(jsstring \<Rightarrow> jsstring) \<Rightarrow> (jsstring \<Rightarrow> numclass) \<Rightarrow> state \<Rightarrow> country list \<Rightarrow> country list" where
  "visibleRows_spec lower num st countries =
     (let filtered = filter (\<lambda>c. applyFilters lower (filters st) c = Inr True) countries;
          sorted = stableSort filtered (getComparator num (order st) (orderBy st))
      in slice sorted (page st * rowsPerPage st) (page st * rowsPerPage st + rowsPerPage st))"

definition pageCount_spec :: "nat \<Rightarrow> nat \<Rightarrow> nat" where
  "pageCount_spec n pageSize = (n + pageSize - 1) div pageSize"

text \<open>A row has a text in a column when the value compared by the sort is a string.\<close>

definition hasText :: "column \<Rightarrow> country \<Rightarrow> bool" where
  "hasText col c = (case ToPrimitive (get c col) of JStr s \<Rightarrow> True | _ \<Rightarrow> False)"

subsection \<open>Concrete inputs\<close>

text \<open>
  The theorems hold for every case mapping \<open>lower\<close> and every number conversion \<open>num\<close>.
  To evaluate the functions at concrete rows, \<open>lowerASCII\<close> maps the code units of
  \<open>A\<close> to \<open>Z\<close> to those of \<open>a\<close> to \<open>z\<close>, as \<open>toLowerCase\<close> does on ASCII strings, and
  \<open>notNumeric\<close> converts to \<open>NaN\<close>, as \<open>StringToNumber\<close> does on every string that is not
  a numeric literal. The conversion is applied only where a string meets \<open>null\<close>, and so
  only to capitals and currencies; those of the rows below are no numeric literals.
  Antarctica has neither a capital nor a currency.
\<close>

definition lowerASCII :: "jsstring \<Rightarrow> jsstring" where
  "lowerASCII s = map (\<lambda>u. if 65 \<le> u \<and> u \<le> 90 then u + 32 else u) s"

definition notNumeric :: "jsstring \<Rightarrow> numclass" where
  "notNumeric s = NaN"

definition benin :: country where
  "benin = \<lparr>name = str ''Benin'', native = str ''Benin'', capital = Text (str ''Porto-Novo''),
     currency = Text (str ''XOF''), emoji = [],
     languages = [\<lparr>code = str ''fr'', name = str ''French''\<rparr>]\<rparr>"

definition antarctica :: country where
  "antarctica = \<lparr>name = str ''Antarctica'', native = str ''Antarctica'', capital = Null,
     currency = Null, emoji = [], languages = []\<rparr>"

definition chad :: country where
  "chad = \<lparr>name = str ''Chad'', native = str ''Tchad'', capital = Text (str ''N'Djamena''),
     currency = Text (str ''XAF''), emoji = [],
     languages = [\<lparr>code = str ''fr'', name = str ''French''\<rparr>,
                  \<lparr>code = str ''ar'', name = str ''Arabic''\<rparr>]\<rparr>"

text \<open>
  The state after a click on the Capital header and the input \<open>x\<close> in the currency filter.
\<close>

definition byCapital :: state where
  "byCapital = handleFilterChange (handleRequestSort initial Capital) Currency (str ''x'')"

section \<open>Sorting\<close>

subsection \<open>The index pairs of \<open>stableSort\<close>\<close>

text \<open>
  Every pair inserted by \<open>sort_js\<close> has a smaller index than the pairs already placed, so
  the tie-break by index decides as the insertion itself does: \<open>stableSort\<close> is the
  insertion sort under the comparator.
\<close>

lemma set_sort_insert: "set (sort_insert f x ys) = insert x (set ys)"
  by (induction ys) auto

lemma set_sort_js: "set (sort_js f xs) = set xs"
  by (induction xs) (auto simp: set_sort_insert)

lemma length_sort_insert: "length (sort_insert f x ys) = Suc (length ys)"
  by (induction ys) auto

lemma length_sort_js: "length (sort_js f xs) = length xs"
  by (induction xs) (auto simp: length_sort_insert)

lemma map_fst_sort_insert:
  assumes "\<forall>p\<in>set ps. i < snd p"
  shows "map fst (sort_insert (\<lambda>a b. let order = c (fst a) (fst b)
                                   in if order \<noteq> 0 then order else int (snd a) - int (snd b)) (x, i) ps)
         = sort_insert c x (map fst ps)"
  using assms by (induction ps) (auto simp: Let_def)

lemma map_fst_sort_zip:
  "map fst (sort_js (\<lambda>a b. let order = c (fst a) (fst b)
                                   in if order \<noteq> 0 then order else int (snd a) - int (snd b))
       (zip xs [i ..< i + length xs])) = sort_js c xs"
proof (induction xs arbitrary: i)
  case Nil
  then show ?case by simp
next
  case (Cons x xs)
  let ?f = "\<lambda>a b. let order = c (fst a) (fst b)
                                   in if order \<noteq> 0 then order else int (snd a) - int (snd b)"
  have "[i ..< i + length (x # xs)] = i # [Suc i ..< i + length (x # xs)]"
    by (rule upt_conv_Cons) simp
  then have up: "[i ..< i + length (x # xs)] = i # [Suc i ..< Suc i + length xs]"
    by simp
  have later: "\<forall>p\<in>set (sort_js ?f (zip xs [Suc i ..< Suc i + length xs])). i < snd p"
    by (auto simp: set_sort_js dest!: set_zip_rightD)
  show ?case
    unfolding up using map_fst_sort_insert[OF later, of c x] Cons.IH[of "Suc i"]
    by simp
qed

lemma stableSort_sort_js: "stableSort xs c = sort_js c xs"
  using map_fst_sort_zip[of c xs 0] by (simp add: stableSort_def)

subsection \<open>Insertion under a consistent comparator\<close>

text \<open>
  On a set \<open>S\<close> where the comparator is total and transitive the result is sorted, and
  filtering commutes with sorting.
\<close>

lemma sort_insert_front: "\<forall>z\<in>set zs. c x z \<le> 0 \<Longrightarrow> sort_insert c x zs = x # zs"
  by (cases zs) auto

lemma sorted_sort_insert:
  assumes total: "\<And>a b. a \<in> S \<Longrightarrow> b \<in> S \<Longrightarrow> c a b \<le> 0 \<or> c b a \<le> 0"
    and trans: "\<And>a b d. a \<in> S \<Longrightarrow> b \<in> S \<Longrightarrow> d \<in> S \<Longrightarrow> c a b \<le> 0 \<Longrightarrow> c b d \<le> 0 \<Longrightarrow> c a d \<le> 0"
    and "x \<in> S" and "set ys \<subseteq> S"
    and "sorted_wrt (\<lambda>a b. c a b \<le> 0) ys"
  shows "sorted_wrt (\<lambda>a b. c a b \<le> 0) (sort_insert c x ys)"
  using assms(3-)
proof (induction ys)
  case Nil
  then show ?case by simp
next
  case (Cons y ys)
  have y: "y \<in> S" and ys: "set ys \<subseteq> S" using Cons.prems(2) by simp_all
  have sorted_ys: "sorted_wrt (\<lambda>a b. c a b \<le> 0) ys" and y_le: "\<forall>z\<in>set ys. c y z \<le> 0"
    using Cons.prems(3) by simp_all
  show ?case
  proof (cases "c x y \<le> 0")
    case True
    have "\<forall>z\<in>set ys. c x z \<le> 0"
    proof
      fix z assume z: "z \<in> set ys"
      then have "z \<in> S" using ys by blast
      moreover have "c y z \<le> 0" using y_le z by blast
      ultimately show "c x z \<le> 0" using trans[OF \<open>x \<in> S\<close> y _ True] by blast
    qed
    with True Cons.prems(3) show ?thesis by simp
  next
    case False
    then have yx: "c y x \<le> 0" using total[OF \<open>x \<in> S\<close> y] by blast
    have IH: "sorted_wrt (\<lambda>a b. c a b \<le> 0) (sort_insert c x ys)"
      by (rule Cons.IH[OF \<open>x \<in> S\<close> ys sorted_ys])
    have "\<forall>z\<in>set (sort_insert c x ys). c y z \<le> 0"
      using yx y_le by (simp add: set_sort_insert)
    with False IH show ?thesis by simp
  qed
qed

lemma sorted_sort_js:
  assumes total: "\<And>a b. a \<in> S \<Longrightarrow> b \<in> S \<Longrightarrow> c a b \<le> 0 \<or> c b a \<le> 0"
    and trans: "\<And>a b d. a \<in> S \<Longrightarrow> b \<in> S \<Longrightarrow> d \<in> S \<Longrightarrow> c a b \<le> 0 \<Longrightarrow> c b d \<le> 0 \<Longrightarrow> c a d \<le> 0"
    and "set xs \<subseteq> S"
  shows "sorted_wrt (\<lambda>a b. c a b \<le> 0) (sort_js c xs)"
  using assms(3)
proof (induction xs)
  case Nil
  then show ?case by simp
next
  case (Cons x xs)
  have x: "x \<in> S" and xs: "set xs \<subseteq> S" using Cons.prems by simp_all
  have "sorted_wrt (\<lambda>a b. c a b \<le> 0) (sort_insert c x (sort_js c xs))"
  proof (rule sorted_sort_insert[where S = S])
    show "set (sort_js c xs) \<subseteq> S" using xs by (simp add: set_sort_js)
    show "sorted_wrt (\<lambda>a b. c a b \<le> 0) (sort_js c xs)" by (rule Cons.IH[OF xs])
  qed (fact total, fact trans, fact x)
  then show ?case by simp
qed

lemma filter_sort_insert_drop: "\<not> P x \<Longrightarrow> filter P (sort_insert c x ys) = filter P ys"
  by (induction ys) auto

lemma filter_sort_insert_keep:
  assumes trans: "\<And>a b d. a \<in> S \<Longrightarrow> b \<in> S \<Longrightarrow> d \<in> S \<Longrightarrow> c a b \<le> 0 \<Longrightarrow> c b d \<le> 0 \<Longrightarrow> c a d \<le> 0"
    and "x \<in> S" and "set ys \<subseteq> S"
    and "sorted_wrt (\<lambda>a b. c a b \<le> 0) ys" and "P x"
  shows "filter P (sort_insert c x ys) = sort_insert c x (filter P ys)"
  using assms(2-)
proof (induction ys)
  case Nil
  then show ?case by simp
next
  case (Cons y ys)
  have y: "y \<in> S" and ys: "set ys \<subseteq> S" using Cons.prems(2) by simp_all
  have sorted_ys: "sorted_wrt (\<lambda>a b. c a b \<le> 0) ys" and y_le: "\<forall>z\<in>set ys. c y z \<le> 0"
    using Cons.prems(3) by simp_all
  show ?case
  proof (cases "c x y \<le> 0")
    case True
    have "\<forall>z\<in>set (filter P ys). c x z \<le> 0"
    proof
      fix z assume "z \<in> set (filter P ys)"
      then have z: "z \<in> set ys" by simp
      then have "z \<in> S" using ys by blast
      moreover have "c y z \<le> 0" using y_le z by blast
      ultimately show "c x z \<le> 0" using trans[OF \<open>x \<in> S\<close> y _ True] by blast
    qed
    then have "sort_insert c x (filter P ys) = x # filter P ys"
      by (rule sort_insert_front)
    with True \<open>P x\<close> show ?thesis by simp
  next
    case False
    have "filter P (sort_insert c x ys) = sort_insert c x (filter P ys)"
      by (rule Cons.IH[OF \<open>x \<in> S\<close> ys sorted_ys \<open>P x\<close>])
    with False show ?thesis by simp
  qed
qed

lemma filter_sort_js:
  assumes total: "\<And>a b. a \<in> S \<Longrightarrow> b \<in> S \<Longrightarrow> c a b \<le> 0 \<or> c b a \<le> 0"
    and trans: "\<And>a b d. a \<in> S \<Longrightarrow> b \<in> S \<Longrightarrow> d \<in> S \<Longrightarrow> c a b \<le> 0 \<Longrightarrow> c b d \<le> 0 \<Longrightarrow> c a d \<le> 0"
    and "set xs \<subseteq> S"
  shows "filter P (sort_js c xs) = sort_js c (filter P xs)"
  using assms(3)
proof (induction xs)
  case Nil
  then show ?case by simp
next
  case (Cons x xs)
  have x: "x \<in> S" and xs: "set xs \<subseteq> S" using Cons.prems by simp_all
  have IH: "filter P (sort_js c xs) = sort_js c (filter P xs)"
    by (rule Cons.IH[OF xs])
  have srt: "sorted_wrt (\<lambda>a b. c a b \<le> 0) (sort_js c xs)"
    using total trans xs by (rule sorted_sort_js[where S = S])
  show ?case
  proof (cases "P x")
    case True
    have "filter P (sort_insert c x (sort_js c xs)) = sort_insert c x (filter P (sort_js c xs))"
    proof (rule filter_sort_insert_keep[where S = S])
      show "set (sort_js c xs) \<subseteq> S" using xs by (simp add: set_sort_js)
    qed (fact trans, fact x, fact srt, fact True)
    with True IH show ?thesis by simp
  next
    case False
    with IH show ?thesis by (simp add: filter_sort_insert_drop)
  qed
qed

lemma sort_insert_split:
  assumes trans: "\<And>a b d. a \<in> S \<Longrightarrow> b \<in> S \<Longrightarrow> d \<in> S \<Longrightarrow> c a b \<le> 0 \<Longrightarrow> c b d \<le> 0 \<Longrightarrow> c a d \<le> 0"
    and "x \<in> S" and "set ys \<subseteq> S" and "sorted_wrt (\<lambda>a b. c a b \<le> 0) ys"
  shows "sort_insert c x ys = filter (\<lambda>y. \<not> c x y \<le> 0) ys @ x # filter (\<lambda>y. c x y \<le> 0) ys"
  using assms(2-)
proof (induction ys)
  case Nil
  then show ?case by simp
next
  case (Cons y ys)
  have y: "y \<in> S" and ys: "set ys \<subseteq> S" using Cons.prems(2) by simp_all
  have sorted_ys: "sorted_wrt (\<lambda>a b. c a b \<le> 0) ys" and y_le: "\<forall>z\<in>set ys. c y z \<le> 0"
    using Cons.prems(3) by simp_all
  show ?case
  proof (cases "c x y \<le> 0")
    case True
    have all: "\<forall>z\<in>set ys. c x z \<le> 0"
    proof
      fix z assume z: "z \<in> set ys"
      then have "z \<in> S" using ys by blast
      moreover have "c y z \<le> 0" using y_le z by blast
      ultimately show "c x z \<le> 0" using trans[OF \<open>x \<in> S\<close> y _ True] by blast
    qed
    then have "filter (\<lambda>y. \<not> c x y \<le> 0) ys = []" "filter (\<lambda>y. c x y \<le> 0) ys = ys"
      by (simp_all add: filter_empty_conv filter_id_conv)
    with True show ?thesis by simp
  next
    case False
    with Cons.IH[OF \<open>x \<in> S\<close> ys sorted_ys] show ?thesis by simp
  qed
qed

lemma sort_js_converse:
  assumes total: "\<And>a b. a \<in> S \<Longrightarrow> b \<in> S \<Longrightarrow> c a b \<le> 0 \<or> c b a \<le> 0"
    and trans: "\<And>a b d. a \<in> S \<Longrightarrow> b \<in> S \<Longrightarrow> d \<in> S \<Longrightarrow> c a b \<le> 0 \<Longrightarrow> c b d \<le> 0 \<Longrightarrow> c a d \<le> 0"
    and antisym: "\<And>a b. a \<in> S \<Longrightarrow> b \<in> S \<Longrightarrow> c a b \<le> 0 \<Longrightarrow> c b a \<le> 0 \<Longrightarrow> a = b"
    and conv: "\<And>a b. (c' a b \<le> 0) = (c b a \<le> 0)"
    and "set xs \<subseteq> S" and "distinct xs"
  shows "sort_js c' xs = rev (sort_js c xs)"
  using assms(5-)
proof (induction xs)
  case Nil
  then show ?case by simp
next
  case (Cons x xs)
  let ?A = "sort_js c xs"
  have x: "x \<in> S" and xs: "set xs \<subseteq> S" and fresh: "x \<notin> set xs" and dist: "distinct xs"
    using Cons.prems by simp_all
  have IH: "sort_js c' xs = rev ?A" by (rule Cons.IH[OF xs dist])
  have A: "set ?A \<subseteq> S" using xs by (simp add: set_sort_js)
  have sortedA: "sorted_wrt (\<lambda>a b. c a b \<le> 0) ?A"
    using total trans xs by (rule sorted_sort_js[where S = S])
  have trans': "c' a d \<le> 0" if "a \<in> S" "b \<in> S" "d \<in> S" "c' a b \<le> 0" "c' b d \<le> 0" for a b d
    using that trans[of d b a] by (simp add: conv)
  have sorted_rev: "sorted_wrt (\<lambda>a b. c' a b \<le> 0) (rev ?A)"
    using sortedA by (simp add: sorted_wrt_rev conv)
  have flip: "(\<not> c y x \<le> 0) = (c x y \<le> 0)" if "y \<in> set ?A" for y
  proof -
    from that have "y \<in> S" "y \<noteq> x" using A fresh by (auto simp: set_sort_js)
    then show ?thesis using total[OF x, of y] antisym[OF x, of y] by blast
  qed
  have "sort_insert c' x (rev ?A)
        = filter (\<lambda>y. \<not> c' x y \<le> 0) (rev ?A) @ x # filter (\<lambda>y. c' x y \<le> 0) (rev ?A)"
  proof (rule sort_insert_split[where S = S])
    show "set (rev ?A) \<subseteq> S" using A by simp
  qed (erule (4) trans', fact x, fact sorted_rev)
  also have "\<dots> = rev (filter (\<lambda>y. \<not> c y x \<le> 0) ?A) @ x # rev (filter (\<lambda>y. c y x \<le> 0) ?A)"
    by (simp add: conv rev_filter)
  also have "filter (\<lambda>y. \<not> c y x \<le> 0) ?A = filter (\<lambda>y. c x y \<le> 0) ?A"
    by (rule filter_cong) (simp_all add: flip)
  also have "filter (\<lambda>y. c y x \<le> 0) ?A = filter (\<lambda>y. \<not> c x y \<le> 0) ?A"
    by (rule filter_cong) (use flip in auto)
  also have "rev (filter (\<lambda>y. c x y \<le> 0) ?A) @ x # rev (filter (\<lambda>y. \<not> c x y \<le> 0) ?A)
             = rev (filter (\<lambda>y. \<not> c x y \<le> 0) ?A @ x # filter (\<lambda>y. c x y \<le> 0) ?A)"
    by simp
  also have "filter (\<lambda>y. \<not> c x y \<le> 0) ?A @ x # filter (\<lambda>y. c x y \<le> 0) ?A = sort_insert c x ?A"
    using trans x A sortedA by (rule sort_insert_split[where S = S, symmetric])
  finally show ?case using IH by simp
qed

subsection \<open>The comparator of a column\<close>

lemma string_less_irrefl: "\<not> string_less s s"
  by (induction s) auto

lemma string_less_trans: "string_less s t \<Longrightarrow> string_less t u \<Longrightarrow> string_less s u"
proof (induction s t arbitrary: u rule: string_less.induct)
  case (1)
  then show ?case by simp
next
  case (2 y ys)
  then show ?case by (cases u) simp_all
next
  case (3 x xs)
  then show ?case by simp
next
  case (4 x xs y ys)
  then show ?case by (cases u) auto
qed

lemma string_less_asym: "string_less s t \<Longrightarrow> \<not> string_less t s"
  using string_less_trans[of s t s] string_less_irrefl[of s] by blast

lemma string_less_total: "\<not> string_less s t \<Longrightarrow> \<not> string_less t s \<Longrightarrow> s = t"
  by (induction s t rule: string_less.induct) auto

lemma js_less_asym: "js_less num x y \<Longrightarrow> \<not> js_less num y x"
  by (cases "ToPrimitive x"; cases "ToPrimitive y") (simp_all add: js_less_def string_less_asym)

lemma js_less_text:
  "ToPrimitive x = JStr s \<Longrightarrow> ToPrimitive y = JStr t \<Longrightarrow> js_less num x y = string_less s t"
  by (simp add: js_less_def)

lemma js_less_same_key:
  "ToPrimitive x = ToPrimitive y \<Longrightarrow> \<not> js_less num x y"
proof
  assume k: "ToPrimitive x = ToPrimitive y" and l: "js_less num x y"
  from l k have "js_less num y x" by (simp add: js_less_def)
  with l show False using js_less_asym by blast
qed

lemma js_less_negtrans:
  assumes "ToPrimitive x = JStr s" "ToPrimitive y = JStr t" "ToPrimitive z = JStr u"
    and "\<not> js_less num x y" "\<not> js_less num y z"
  shows "\<not> js_less num x z"
proof
  assume "js_less num x z"
  then have xz: "string_less s u" using assms(1,3) by (simp add: js_less_text)
  have nxy: "\<not> string_less s t" and nyz: "\<not> string_less t u"
    using assms by (simp_all add: js_less_text)
  show False
  proof (cases "string_less t s")
    case True
    from True xz have "string_less t u" by (rule string_less_trans)
    with nyz show False by simp
  next
    case False
    with nxy have "s = t" by (rule string_less_total)
    with xz nyz show False by simp
  qed
qed

lemma getComparator_Asc: "getComparator num Asc col a b \<le> 0 \<longleftrightarrow> \<not> js_less num (get b col) (get a col)"
  by (simp add: getComparator_def descendingComparator_def js_greater_def)

lemma getComparator_Desc: "getComparator num Desc col a b \<le> 0 \<longleftrightarrow> \<not> js_less num (get a col) (get b col)"
  using js_less_asym[of num "get b col" "get a col"]
  by (simp add: getComparator_def descendingComparator_def js_greater_def)

lemma getComparator_converse:
  "(getComparator num Desc col a b \<le> 0) = (getComparator num Asc col b a \<le> 0)"
  by (simp add: getComparator_Asc getComparator_Desc)

lemma getComparator_total:
  "getComparator num d col a b \<le> 0 \<or> getComparator num d col b a \<le> 0"
proof (cases d)
  case Asc
  then show ?thesis
    using js_less_asym[of num "get b col" "get a col"] by (auto simp only: getComparator_Asc)
next
  case Desc
  then show ?thesis
    using js_less_asym[of num "get b col" "get a col"] by (auto simp only: getComparator_Desc)
qed

lemma getComparator_same_key:
  "ToPrimitive (get a col) = ToPrimitive (get b col) \<Longrightarrow> getComparator num d col a b \<le> 0"
  by (cases d) (simp_all add: getComparator_Asc getComparator_Desc js_less_same_key)

lemma hasTextE: "hasText col c \<Longrightarrow> \<exists>s. ToPrimitive (get c col) = JStr s"
  unfolding hasText_def by (cases "ToPrimitive (get c col)") simp_all

lemma hasText_simps:
  "hasText Name c" "hasText Native c" "hasText Languages c"
  "hasText Capital c \<longleftrightarrow> (\<exists>s. capital c = Text s)"
  "hasText Currency c \<longleftrightarrow> (\<exists>s. currency c = Text s)"
  by (simp_all add: hasText_def, (cases "capital c"; simp), (cases "currency c"; simp))

lemma getComparator_trans:
  assumes "hasText col a" "hasText col b" "hasText col e"
    and "getComparator num d col a b \<le> 0" "getComparator num d col b e \<le> 0"
  shows "getComparator num d col a e \<le> 0"
proof -
  obtain s t u where k: "ToPrimitive (get a col) = JStr s" "ToPrimitive (get b col) = JStr t"
    "ToPrimitive (get e col) = JStr u"
    using assms(1-3) by (blast dest: hasTextE)
  show ?thesis
  proof (cases d)
    case Asc
    with assms(4,5) have "\<not> js_less num (get e col) (get b col)" "\<not> js_less num (get b col) (get a col)"
      by (simp_all add: getComparator_Asc)
    then have "\<not> js_less num (get e col) (get a col)"
      by (rule js_less_negtrans[OF k(3) k(2) k(1)])
    with Asc show ?thesis by (simp add: getComparator_Asc)
  next
    case Desc
    with assms(4,5) have "\<not> js_less num (get a col) (get b col)" "\<not> js_less num (get b col) (get e col)"
      by (simp_all add: getComparator_Desc)
    then have "\<not> js_less num (get a col) (get e col)"
      by (rule js_less_negtrans[OF k(1) k(2) k(3)])
    with Desc show ?thesis by (simp add: getComparator_Desc)
  qed
qed

text \<open>
  Where every row has a text in the sort column, filtering before or after the sort gives
  the same rows.
\<close>

lemma filter_stableSort:
  assumes "\<forall>c\<in>set xs. hasText col c"
  shows "filter P (stableSort xs (getComparator num d col))
         = stableSort (filter P xs) (getComparator num d col)"
proof -
  have "filter P (sort_js (getComparator num d col) xs) = sort_js (getComparator num d col) (filter P xs)"
  proof (rule filter_sort_js[where S = "{c. hasText col c}"])
    show "set xs \<subseteq> {c. hasText col c}" using assms by blast
  next
    fix a b show "getComparator num d col a b \<le> 0 \<or> getComparator num d col b a \<le> 0"
      by (rule getComparator_total)
  next
    fix a b e
    assume "a \<in> {c. hasText col c}" "b \<in> {c. hasText col c}" "e \<in> {c. hasText col c}"
      "getComparator num d col a b \<le> 0" "getComparator num d col b e \<le> 0"
    then show "getComparator num d col a e \<le> 0"
      using getComparator_trans[of col a b e num d] by simp
  qed
  then show ?thesis by (simp only: stableSort_sort_js)
qed

text \<open>
  Rows with the same sort key keep their order from the input, in both directions, and on
  rows with pairwise distinct texts the descending order is the reverse of the ascending.
\<close>

lemma filter_key_sort_insert:
  assumes "\<And>y. key y = key x \<Longrightarrow> c x y \<le> 0"
  shows "filter (\<lambda>y. key y = k) (sort_insert c x ys)
         = (if key x = k then x # filter (\<lambda>y. key y = k) ys else filter (\<lambda>y. key y = k) ys)"
  using assms by (induction ys) auto

lemma stableSort_keeps_equal_keys:
  "filter (\<lambda>r. ToPrimitive (get r col) = k) (stableSort xs (getComparator num d col))
   = filter (\<lambda>r. ToPrimitive (get r col) = k) xs"
proof (induction xs)
  case Nil
  then show ?case by (simp add: stableSort_sort_js)
next
  case (Cons x xs)
  have "filter (\<lambda>r. ToPrimitive (get r col) = k)
          (sort_insert (getComparator num d col) x (sort_js (getComparator num d col) xs))
        = (if ToPrimitive (get x col) = k
           then x # filter (\<lambda>r. ToPrimitive (get r col) = k) (sort_js (getComparator num d col) xs)
           else filter (\<lambda>r. ToPrimitive (get r col) = k) (sort_js (getComparator num d col) xs))"
    by (rule filter_key_sort_insert) (simp add: getComparator_same_key)
  with Cons show ?case by (simp add: stableSort_sort_js)
qed

lemma stableSort_Desc_rev:
  assumes present: "\<forall>c\<in>set xs. hasText col c"
    and dist: "distinct (map (\<lambda>c. ToPrimitive (get c col)) xs)"
  shows "stableSort xs (getComparator num Desc col) = rev (stableSort xs (getComparator num Asc col))"
proof -
  have inj: "inj_on (\<lambda>c. ToPrimitive (get c col)) (set xs)" and dxs: "distinct xs"
    using dist by (simp_all add: distinct_map)
  have "sort_js (getComparator num Desc col) xs = rev (sort_js (getComparator num Asc col) xs)"
  proof (rule sort_js_converse[where S = "set xs"])
    fix a b show "getComparator num Asc col a b \<le> 0 \<or> getComparator num Asc col b a \<le> 0"
      by (rule getComparator_total)
  next
    fix a b e
    assume "a \<in> set xs" "b \<in> set xs" "e \<in> set xs"
      "getComparator num Asc col a b \<le> 0" "getComparator num Asc col b e \<le> 0"
    then show "getComparator num Asc col a e \<le> 0"
      using present getComparator_trans[of col a b e num Asc] by blast
  next
    fix a b
    assume a: "a \<in> set xs" and b: "b \<in> set xs"
      and ab: "getComparator num Asc col a b \<le> 0" and ba: "getComparator num Asc col b a \<le> 0"
    obtain s t where k: "ToPrimitive (get a col) = JStr s" "ToPrimitive (get b col) = JStr t"
      using present a b by (blast dest: hasTextE)
    from ab ba have "\<not> string_less t s" "\<not> string_less s t"
      using k by (simp_all add: getComparator_Asc js_less_text)
    then have "s = t" using string_less_total by blast
    with k have "ToPrimitive (get a col) = ToPrimitive (get b col)" by simp
    with inj a b show "a = b" by (simp add: inj_on_def)
  next
    fix a b
    show "(getComparator num Desc col a b \<le> 0) = (getComparator num Asc col b a \<le> 0)"
      by (rule getComparator_converse)
  qed (simp, fact dxs)
  then show ?thesis by (simp add: stableSort_sort_js)
qed

subsection \<open>Any sort gives the same rows\<close>

text \<open>
  On rows with a text in the sort column the comparator with the index tie-break is a
  linear order of the index pairs, so a sorted list of these pairs is unique.
\<close>

lemma stableSort_tieBreak:
  "stableSort xs c = map fst (sort_js (tieBreak c) (zip xs [0 ..< length xs]))"
  unfolding stableSort_def tieBreak_def by (simp add: Let_def)

lemma distinct_sort_insert: "distinct (sort_insert c x ys) = (x \<notin> set ys \<and> distinct ys)"
  by (induction ys) (auto simp: set_sort_insert)

lemma distinct_sort_js: "distinct (sort_js c xs) = distinct xs"
  by (induction xs) (simp_all add: distinct_sort_insert set_sort_js)

lemma sorted_wrt_unique:
  assumes antisym: "\<And>a b. a \<in> S \<Longrightarrow> b \<in> S \<Longrightarrow> R a b \<Longrightarrow> R b a \<Longrightarrow> a = b"
    and "set xs \<subseteq> S" and "sorted_wrt R xs" and "sorted_wrt R ys"
    and "distinct xs" and "distinct ys" and "set ys = set xs"
  shows "ys = xs"
  using assms(2-)
proof (induction xs arbitrary: ys)
  case Nil
  then show ?case by simp
next
  case (Cons x xs)
  from Cons.prems(6) obtain y ys' where ys: "ys = y # ys'" by (cases ys) auto
  have xS: "x \<in> S" and xsS: "set xs \<subseteq> S" using Cons.prems(1) by simp_all
  have yS: "y \<in> S" using Cons.prems(1,6) ys by auto
  have "y = x"
  proof (rule ccontr)
    assume ne: "y \<noteq> x"
    then have "x \<in> set ys'" "y \<in> set xs" using Cons.prems(6) ys by auto
    then have "R y x" "R x y" using Cons.prems(2,3) ys by auto
    with antisym[OF yS xS] ne show False by blast
  qed
  moreover have "set ys' = set xs"
    using Cons.prems(4,5,6) ys \<open>y = x\<close> by auto
  then have "ys' = xs"
    using Cons.IH[of ys'] Cons.prems(2,3,4,5) xsS ys by simp
  ultimately show ?case using ys by simp
qed

lemma getComparator_flip: "getComparator num d col b a = - getComparator num d col a b"
  using js_less_asym[of num "get b col" "get a col"]
  by (cases d) (auto simp: getComparator_def descendingComparator_def js_greater_def)

lemma tieBreak_le:
  "tieBreak c p q \<le> 0 \<longleftrightarrow> c (fst p) (fst q) < 0 \<or> (c (fst p) (fst q) = 0 \<and> snd p \<le> snd q)"
  by (auto simp: tieBreak_def Let_def)

lemma tieBreak_total:
  assumes flip: "\<And>a b. c b a = - c a b"
  shows "tieBreak c p q \<le> 0 \<or> tieBreak c q p \<le> 0"
  using flip[of "fst p" "fst q"] unfolding tieBreak_le by auto

lemma tieBreak_antisym:
  assumes flip: "\<And>a b. c b a = - c a b"
    and "tieBreak c p q \<le> 0" "tieBreak c q p \<le> 0"
  shows "snd p = snd q"
  using flip[of "fst p" "fst q"] assms(2,3) unfolding tieBreak_le by auto

lemma tieBreak_trans:
  assumes flip: "\<And>a b. c b a = - c a b"
    and trans: "\<And>a b d. a \<in> A \<Longrightarrow> b \<in> A \<Longrightarrow> d \<in> A \<Longrightarrow> c a b \<le> 0 \<Longrightarrow> c b d \<le> 0 \<Longrightarrow> c a d \<le> 0"
    and A: "fst p \<in> A" "fst q \<in> A" "fst r \<in> A"
    and pq: "tieBreak c p q \<le> 0" and qr: "tieBreak c q r \<le> 0"
  shows "tieBreak c p r \<le> 0"
proof -
  let ?a = "fst p" and ?b = "fst q" and ?d = "fst r"
  have ab: "c ?a ?b \<le> 0" and bd: "c ?b ?d \<le> 0"
    using pq qr unfolding tieBreak_le by auto
  have ad: "c ?a ?d \<le> 0" using trans[OF A ab bd] .
  show ?thesis
  proof (cases "c ?a ?d < 0")
    case True
    then show ?thesis unfolding tieBreak_le by simp
  next
    case False
    with ad have zero: "c ?a ?d = 0" by simp
    then have da: "c ?d ?a \<le> 0" using flip[of ?d ?a] by simp
    have "c ?b ?a \<le> 0" using trans[OF A(2,3,1) bd da] .
    with ab have ab0: "c ?a ?b = 0" using flip[of ?a ?b] by simp
    have "c ?d ?b \<le> 0" using trans[OF A(3,1,2) da ab] .
    with bd have bd0: "c ?b ?d = 0" using flip[of ?b ?d] by simp
    from pq qr ab0 bd0 have "snd p \<le> snd q" "snd q \<le> snd r"
      unfolding tieBreak_le by simp_all
    with zero show ?thesis unfolding tieBreak_le by simp
  qed
qed

lemma zip_index_unique:
  assumes "p \<in> set (zip xs [0 ..< length xs])" "q \<in> set (zip xs [0 ..< length xs])"
    and "snd p = snd q"
  shows "p = q"
proof -
  from assms(1) obtain i where i: "i < length xs" "p = (xs ! i, i)"
    by (auto simp: in_set_zip)
  from assms(2) obtain j where j: "j < length xs" "q = (xs ! j, j)"
    by (auto simp: in_set_zip)
  from i j assms(3) show ?thesis by simp
qed

lemma stableSort_any_sort:
  assumes present: "\<forall>c\<in>set xs. hasText col c"
    and perm: "set ps = set (zip xs [0 ..< length xs])" "distinct ps"
    and sorted: "sorted_wrt (\<lambda>p q. tieBreak (getComparator num d col) p q \<le> 0) ps"
  shows "map fst ps = stableSort xs (getComparator num d col)"
proof -
  let ?c = "getComparator num d col"
  let ?zs = "zip xs [0 ..< length xs]"
  let ?S = "set ?zs"
  have fstS: "hasText col (fst p)" if "p \<in> ?S" for p
  proof -
    obtain a i where "p = (a, i)" by (cases p)
    with that have "a \<in> set xs" by (auto dest: set_zip_leftD)
    with present \<open>p = (a, i)\<close> show ?thesis by simp
  qed
  have total: "tieBreak ?c p q \<le> 0 \<or> tieBreak ?c q p \<le> 0" for p q
    by (rule tieBreak_total) (rule getComparator_flip)
  have trans: "tieBreak ?c p r \<le> 0"
    if "p \<in> ?S" "q \<in> ?S" "r \<in> ?S" "tieBreak ?c p q \<le> 0" "tieBreak ?c q r \<le> 0" for p q r
  proof (rule tieBreak_trans[where A = "{c. hasText col c}" and q = q])
    fix a b e
    assume "a \<in> {c. hasText col c}" "b \<in> {c. hasText col c}" "e \<in> {c. hasText col c}"
      "?c a b \<le> 0" "?c b e \<le> 0"
    then show "?c a e \<le> 0" using getComparator_trans[of col a b e num d] by simp
  next
    fix a b show "?c b a = - ?c a b" by (rule getComparator_flip)
  next
    show "fst p \<in> {c. hasText col c}" "fst q \<in> {c. hasText col c}" "fst r \<in> {c. hasText col c}"
      using that(1-3) fstS by simp_all
  qed (fact that(4), fact that(5))
  have antisym: "p = q"
    if "p \<in> ?S" "q \<in> ?S" "tieBreak ?c p q \<le> 0" "tieBreak ?c q p \<le> 0" for p q
  proof -
    have "snd p = snd q"
      using that(3,4) by (rule tieBreak_antisym[rotated]) (rule getComparator_flip)
    with that(1,2) show ?thesis by (rule zip_index_unique)
  qed
  have "ps = sort_js (tieBreak ?c) ?zs"
  proof (rule sorted_wrt_unique[where S = ?S and R = "\<lambda>p q. tieBreak ?c p q \<le> 0"])
    show "sorted_wrt (\<lambda>p q. tieBreak ?c p q \<le> 0) (sort_js (tieBreak ?c) ?zs)"
      by (rule sorted_sort_js[where S = ?S]) (use total trans in \<open>blast+\<close>)
    show "distinct (sort_js (tieBreak ?c) ?zs)"
      by (simp add: distinct_sort_js distinct_zipI2)
    show "set ps = set (sort_js (tieBreak ?c) ?zs)"
      using perm(1) by (simp add: set_sort_js)
  qed (use antisym perm(2) sorted in \<open>simp_all add: set_sort_js\<close>)
  then show ?thesis by (simp add: stableSort_tieBreak)
qed

section \<open>Filtering\<close>

lemma includes_js_iff: "includes_js s t \<longleftrightarrow> (\<exists>ps ss. s = ps @ t @ ss)"
proof
  assume "includes_js s t"
  then obtain i where i: "i \<le> length s - length t" "length t \<le> length s"
    and eq: "take (length t) (drop i s) = t"
    unfolding includes_js_def list_ex_iff by (auto simp: less_Suc_eq_le simp del: upt_Suc)
  have "drop i s = take (length t) (drop i s) @ drop (length t) (drop i s)"
    by (rule append_take_drop_id[symmetric])
  then have "drop i s = t @ drop (length t) (drop i s)" using eq by simp
  then have "take i s @ drop i s = take i s @ t @ drop (length t) (drop i s)" by simp
  then have "s = take i s @ t @ drop (length t) (drop i s)" by simp
  then show "\<exists>ps ss. s = ps @ t @ ss" by blast
next
  assume "\<exists>ps ss. s = ps @ t @ ss"
  then obtain ps ss where s: "s = ps @ t @ ss" by blast
  then have "take (length t) (drop (length ps) s) = t" by simp
  moreover have "length ps \<le> length s - length t" "length t \<le> length s" using s by simp_all
  ultimately show "includes_js s t"
    unfolding includes_js_def list_ex_iff
    by (intro conjI bexI[of _ "length ps"]) (simp_all add: less_Suc_eq_le del: upt_Suc)
qed

lemma includes_js_containsText: "includes_js (lower v) (lower pat) = containsText_spec lower v pat"
  by (simp add: includes_js_iff containsText_spec_def)

lemma every_Inr:
  "\<forall>x\<in>set xs. \<exists>b. p x = Inr b \<Longrightarrow> every p xs = Inr (\<forall>x\<in>set xs. p x = Inr True)"
  by (induction xs) auto

lemma filter_js_Inr:
  "\<forall>x\<in>set xs. \<exists>b. p x = Inr b \<Longrightarrow> filter_js p xs = Inr (filter (\<lambda>x. p x = Inr True) xs)"
  by (induction xs) auto

lemma lookup_Some: "map_of fs col = Some pat \<Longrightarrow> lookup fs col = JStr pat"
  by (simp add: lookup_def)

lemma lowerIncludes_text:
  "lowerIncludes lower (JStr v) (JStr pat) = Inr (includes_js (lower v) (lower pat))"
  by (simp add: lowerIncludes_def)

lemma filterMatches_total:
  assumes "map_of fs col = Some pat"
  shows "\<exists>b. filterMatches lower fs c col = Inr b"
proof (cases col)
  case Capital
  then show ?thesis using assms
    by (cases "capital c") (auto simp add: filterMatches_def lookup_Some lowerIncludes_text)
next
  case Currency
  then show ?thesis using assms
    by (cases "currency c") (auto simp add: filterMatches_def lookup_Some lowerIncludes_text)
qed (use assms in \<open>auto simp add: filterMatches_def lookup_Some lowerIncludes_text\<close>)

lemma applyFilters_total:
  "applyFilters lower fs c = Inr (\<forall>col\<in>set (map fst fs). filterMatches lower fs c col = Inr True)"
  unfolding applyFilters_def
proof (rule every_Inr, rule ballI)
  fix col assume "col \<in> set (map fst fs)"
  then obtain pat where "map_of fs col = Some pat"
    by (metis map_of_eq_None_iff not_Some_eq set_map)
  then show "\<exists>b. filterMatches lower fs c col = Inr b" by (rule filterMatches_total)
qed

lemma filterMatches_matches:
  assumes lower_empty: "lower [] = []" and lower_nonempty: "\<And>s. lower s = [] \<Longrightarrow> s = []"
    and "map_of fs col = Some pat"
  shows "filterMatches lower fs c col = Inr (pat = [] \<or> matches_spec lower col pat c)"
proof (cases "pat = []")
  case True
  with assms(3) show ?thesis by (simp add: filterMatches_def lookup_Some)
next
  case False
  then have ne: "lower pat \<noteq> []" using lower_nonempty by blast
  have empty: "\<not> includes_js [] (lower pat)" using ne by (simp add: includes_js_iff)
  show ?thesis
  proof (cases col)
    case Name
    with False assms(3) show ?thesis
      by (simp add: filterMatches_def lookup_Some lowerIncludes_text matches_spec_def includes_js_containsText)
  next
    case Native
    with False assms(3) show ?thesis
      by (simp add: filterMatches_def lookup_Some lowerIncludes_text matches_spec_def includes_js_containsText)
  next
    case Capital
    show ?thesis
    proof (cases "capital c")
      case (Text v)
      with Capital False assms(3) empty lower_empty show ?thesis
        by (cases "v = []")
          (auto simp add: filterMatches_def lookup_Some lowerIncludes_text matches_spec_def
            includes_js_containsText[symmetric])
    qed (use Capital False assms(3) in \<open>simp_all add: filterMatches_def lookup_Some matches_spec_def\<close>)
  next
    case Languages
    with False assms(3) show ?thesis
      by (simp add: filterMatches_def lookup_Some matches_spec_def list_ex_iff includes_js_containsText)
  next
    case Currency
    show ?thesis
    proof (cases "currency c")
      case (Text v)
      with Currency False assms(3) empty lower_empty show ?thesis
        by (cases "v = []")
          (auto simp add: filterMatches_def lookup_Some lowerIncludes_text matches_spec_def
            includes_js_containsText[symmetric])
    qed (use Currency False assms(3) in \<open>simp_all add: filterMatches_def lookup_Some matches_spec_def\<close>)
  qed
qed

lemma lowerASCII_empty: "lowerASCII [] = []"
  by (simp add: lowerASCII_def)

lemma lowerASCII_nonempty: "lowerASCII s = [] \<Longrightarrow> s = []"
  by (simp add: lowerASCII_def)

text \<open>
  C3. For every country row and every filter state, \<open>applyFilters\<close> returns without an
  error, and it keeps the row exactly when every non-empty filter matches it: containment of
  the lower-cased filter text in the lower-cased column value, for the languages column in
  the name of at least one language, and never for a capital or currency that is missing.
  The case mapping is any function that maps the empty string, and only it, to the empty
  string.
\<close>

theorem applyFilters_kept:
  assumes lower_empty: "lower [] = []" and lower_nonempty: "\<And>s. lower s = [] \<Longrightarrow> s = []"
  shows "applyFilters lower fs c = Inr (kept_spec lower fs c)"
proof -
  have "(filterMatches lower fs c col = Inr True)
        = (\<forall>pat. map_of fs col = Some pat \<longrightarrow> pat \<noteq> [] \<longrightarrow> matches_spec lower col pat c)"
    if "col \<in> set (map fst fs)" for col
  proof -
    from that obtain pat where t: "map_of fs col = Some pat"
      by (metis map_of_eq_None_iff not_Some_eq set_map)
    have "filterMatches lower fs c col = Inr (pat = [] \<or> matches_spec lower col pat c)"
      by (rule filterMatches_matches) (fact lower_empty, erule lower_nonempty, fact t)
    with t show ?thesis by auto
  qed
  then show ?thesis
    unfolding applyFilters_total kept_spec_def by simp
qed

theorem applyFilters_kept_witness:
  "lowerASCII [] = []
   \<and> kept_spec lowerASCII [(Name, []), (Capital, []), (Currency, str ''x'')] chad
   \<and> \<not> kept_spec lowerASCII [(Name, []), (Capital, []), (Currency, str ''x'')] antarctica"
proof -
  have "applyFilters lowerASCII [(Name, []), (Capital, []), (Currency, str ''x'')] chad = Inr True"
    and "applyFilters lowerASCII [(Name, []), (Capital, []), (Currency, str ''x'')] antarctica = Inr False"
    by code_simp+
  then show ?thesis
    using applyFilters_kept[of lowerASCII _ chad, OF lowerASCII_empty lowerASCII_nonempty]
      applyFilters_kept[of lowerASCII _ antarctica, OF lowerASCII_empty lowerASCII_nonempty]
    by (simp add: lowerASCII_empty)
qed

text \<open>
  C7. For a country whose capital is \<open>undefined\<close>, \<open>null\<close> or the empty string, and a
  non-empty capital filter, the capital filter returns \<open>false\<close> and so does \<open>applyFilters\<close>;
  neither raises an error.
\<close>

theorem missing_capital_never_matches:
  assumes "capital c = Undefined \<or> capital c = Null \<or> capital c = Text []"
    and "map_of fs Capital = Some pat" and "pat \<noteq> []"
  shows "filterMatches lower fs c Capital = Inr False \<and> applyFilters lower fs c = Inr False"
proof -
  have one: "filterMatches lower fs c Capital = Inr False"
    using assms by (auto simp: filterMatches_def lookup_Some)
  have "Capital \<in> set (map fst fs)"
    using assms(2) by (metis map_of_eq_None_iff option.distinct(1) set_map)
  with one have "\<not> (\<forall>col\<in>set (map fst fs). filterMatches lower fs c col = Inr True)"
    by force
  with one show ?thesis by (simp add: applyFilters_total)
qed

theorem missing_capital_never_matches_witness:
  "capital antarctica = Null \<and> str ''x'' \<noteq> []
   \<and> filterMatches lowerASCII [(Name, []), (Capital, str ''x''), (Currency, [])] antarctica Capital = Inr False
   \<and> applyFilters lowerASCII [(Name, []), (Capital, str ''x''), (Currency, [])] antarctica = Inr False"
  using missing_capital_never_matches[of antarctica "[(Name, []), (Capital, str ''x''), (Currency, [])]" "str ''x''" lowerASCII]
  by (simp add: antarctica_def str_def)

section \<open>The rendered rows\<close>

lemma sortedAndFilteredData_Inr:
  "sortedAndFilteredData lower num st data
   = Inr (filter (\<lambda>c. applyFilters lower (filters st) c = Inr True)
            (stableSort data (getComparator num (order st) (orderBy st))))"
  unfolding sortedAndFilteredData_def
  by (rule filter_js_Inr) (simp add: applyFilters_total)

lemma sortedAndFilteredData_page [simp]:
  "sortedAndFilteredData lower num (st\<lparr>page := p\<rparr>) data = sortedAndFilteredData lower num st data"
  "sortedAndFilteredData lower num (st\<lparr>rowsPerPage := r\<rparr>) data = sortedAndFilteredData lower num st data"
  by (simp_all add: sortedAndFilteredData_def)

lemma Countries_Inr:
  "sortedAndFilteredData lower num st data = Inr rows \<Longrightarrow>
   Countries lower num st data
   = Inr \<lparr>body = slice rows (page st * rowsPerPage st) (page st * rowsPerPage st + rowsPerPage st),
          padding = emptyRows (rowsPerPage st) (length rows) (page st),
          count = length rows, exported = exportToExcel rows\<rparr>"
  by (simp add: Countries_def)

lemma slice_take_drop: "slice xs i (i + n) = take n (drop i xs)"
  by (auto simp: slice_def Let_def min_def)

lemma slice_empty: "length xs \<le> i \<Longrightarrow> slice xs i j = []"
  by (simp add: slice_def Let_def)

lemma concat_pages: "concat (map (\<lambda>p. take r (drop (p * r) xs)) [0 ..< k]) = take (k * r) xs"
proof (induction k)
  case 0
  then show ?case by simp
next
  case (Suc k)
  have "take (k * r + r) xs = take (k * r) xs @ take r (drop (k * r) xs)"
    by (rule take_add)
  then have "take (Suc k * r) xs = take (k * r) xs @ take r (drop (k * r) xs)"
    by (simp add: add.commute)
  with Suc show ?case by simp
qed

lemma pageCount_covers: "0 < r \<Longrightarrow> n \<le> pageCount_spec n r * r"
proof -
  assume r: "0 < r"
  have "n + r - 1 < ((n + r - 1) div r) * r + r"
    using r by (metis add.commute dividend_less_div_times)
  then show ?thesis using r by (simp add: pageCount_spec_def)
qed

lemma exportToExcel_rows:
  "foldl (\<lambda>worksheet country. addRow worksheet (f country)) ws rows = ws @ map f rows"
  by (induction rows arbitrary: ws) (simp_all add: addRow_def)

lemma exportToExcel_eq:
  "exportToExcel rows =
     [JStr (str ''Name''), JStr (str ''Capital''), JStr (str ''Currency''),
      JStr (str ''Languages''), JStr (str ''Native'')]
     # map (\<lambda>c. [JStr (name c), field_val (capital c), field_val (currency c),
                   JStr (join (str '', '') (map language.name (languages c)))]) rows"
  unfolding exportToExcel_def Let_def exportToExcel_rows by (simp add: addRow_def)

lemma rowsPerPage_positive: "list_all (\<lambda>n. 0 < n) (rowsPerPage initial # rowsPerPageOptions)"
  by (simp add: initial_def rowsPerPageOptions_def)

text \<open>
  Where every row has a text in the sort column, the table body is the slice of the rows
  filtered first and sorted afterwards.
\<close>

lemma Countries_body_filter_first:
  assumes "\<forall>c\<in>set data. hasText (orderBy st) c"
  shows "map_sum id body (Countries lower num st data) = Inr (visibleRows_spec lower num st data)"
  using filter_stableSort[OF assms, of "\<lambda>c. applyFilters lower (filters st) c = Inr True" num "order st"]
  by (simp add: Countries_Inr[OF sortedAndFilteredData_Inr] visibleRows_spec_def)

text \<open>
  C1. The visible rows are not always the rows obtained by filtering, then sorting, then
  slicing. With the rows Benin (capital Porto-Novo), Antarctica (no capital) and Chad
  (capital N'Djamena), sorted by capital ascending and filtered by the currency text \<open>x\<close>,
  the comparator ties Antarctica with both other rows, the sort of the full list leaves the
  three rows in place, and the table shows Benin before Chad; filtering first and sorting
  the two remaining rows puts Chad before Benin.
\<close>

theorem sort_then_filter_unsorted:
  "getComparator notNumeric Asc Capital benin antarctica = 0
   \<and> getComparator notNumeric Asc Capital antarctica chad = 0
   \<and> getComparator notNumeric Asc Capital benin chad = 1
   \<and> sortedAndFilteredData lowerASCII notNumeric byCapital [benin, antarctica, chad] = Inr [benin, chad]
   \<and> map_sum id body (Countries lowerASCII notNumeric byCapital [benin, antarctica, chad]) = Inr [benin, chad]
   \<and> visibleRows_spec lowerASCII notNumeric byCapital [benin, antarctica, chad] = [chad, benin]"
  by code_simp

text \<open>
  C2. Two rows with distinct sort keys are not always reversed between the two directions.
  Antarctica has no capital and Chad has one, so their sort keys differ, and the rows
  [Antarctica, Chad] sorted by capital come out in this order ascending and descending.
\<close>

theorem missing_key_same_order_both_directions:
  "ToPrimitive (get antarctica Capital) \<noteq> ToPrimitive (get chad Capital)
   \<and> getComparator notNumeric Asc Capital antarctica chad = 0
   \<and> getComparator notNumeric Desc Capital antarctica chad = 0
   \<and> stableSort [antarctica, chad] (getComparator notNumeric Asc Capital) = [antarctica, chad]
   \<and> stableSort [antarctica, chad] (getComparator notNumeric Desc Capital) = [antarctica, chad]"
  by code_simp

text \<open>
  C4. For every state and country list the export writes the header row Name, Capital,
  Currency, Languages, Native and then one row for each filtered and sorted country, in
  that order, with the cells name, capital, currency and the language names joined by a
  comma and a space. A data row has no cell for the native name: the export is the same
  whatever the native names are.
\<close>

theorem export_rows:
  "\<exists>rows v. sortedAndFilteredData lower num st data = Inr rows
     \<and> Countries lower num st data = Inr v
     \<and> hd (exported v) = [JStr (str ''Name''), JStr (str ''Capital''), JStr (str ''Currency''),
                           JStr (str ''Languages''), JStr (str ''Native'')]
     \<and> tl (exported v) = map (\<lambda>c. [JStr (name c), field_val (capital c), field_val (currency c),
                                      JStr (join (str '', '') (map language.name (languages c)))]) rows
     \<and> exportToExcel (map (\<lambda>c. c\<lparr>native := other\<rparr>) rows) = exportToExcel rows"
proof -
  obtain rows where rows: "sortedAndFilteredData lower num st data = Inr rows"
    using sortedAndFilteredData_Inr by blast
  have "exportToExcel (map (\<lambda>c. c\<lparr>native := other\<rparr>) rows) = exportToExcel rows"
    by (simp add: exportToExcel_eq o_def)
  with rows show ?thesis
    by (simp add: Countries_Inr exportToExcel_eq)
qed

text \<open>
  C5. For every state, the worksheet written under any page and any page size is the
  export of the filtered and sorted rows of that state, and its number of data rows is
  their number.
\<close>

theorem export_ignores_pagination:
  "\<exists>rows. sortedAndFilteredData lower num st data = Inr rows
     \<and> (\<forall>p r. \<exists>v. Countries lower num (st\<lparr>page := p, rowsPerPage := r\<rparr>) data = Inr v
            \<and> exported v = exportToExcel rows
            \<and> length (tl (exported v)) = length rows)"
proof -
  obtain rows where rows: "sortedAndFilteredData lower num st data = Inr rows"
    using sortedAndFilteredData_Inr by blast
  have "sortedAndFilteredData lower num (st\<lparr>page := p, rowsPerPage := r\<rparr>) data = Inr rows" for p r
    using rows by (simp add: sortedAndFilteredData_def)
  then have "\<exists>v. Countries lower num (st\<lparr>page := p, rowsPerPage := r\<rparr>) data = Inr v
            \<and> exported v = exportToExcel rows
            \<and> length (tl (exported v)) = length rows" for p r
    by (simp add: Countries_Inr exportToExcel_eq)
  with rows show ?thesis by blast
qed

text \<open>
  C6. For every state with a positive page size, the table bodies of the pages
  \<open>0, \<dots>, ceil(n / pageSize) - 1\<close>, concatenated, are the filtered and sorted rows.
\<close>

theorem pages_cover_rows:
  assumes "0 < rowsPerPage st"
  shows "\<exists>rows pages. sortedAndFilteredData lower num st data = Inr rows
     \<and> map (\<lambda>p. Countries lower num (st\<lparr>page := p\<rparr>) data)
          [0 ..< pageCount_spec (length rows) (rowsPerPage st)] = map Inr pages
     \<and> concat (map body pages) = rows"
proof -
  let ?r = "rowsPerPage st"
  obtain rows where rows: "sortedAndFilteredData lower num st data = Inr rows"
    using sortedAndFilteredData_Inr by blast
  let ?view = "\<lambda>p. \<lparr>body = slice rows (p * ?r) (p * ?r + ?r),
                     padding = emptyRows ?r (length rows) p,
                     count = length rows, exported = exportToExcel rows\<rparr>"
  let ?pages = "map ?view [0 ..< pageCount_spec (length rows) ?r]"
  have "Countries lower num (st\<lparr>page := p\<rparr>) data = Inr (?view p)" for p
    using rows by (simp add: Countries_Inr)
  then have 1: "map (\<lambda>p. Countries lower num (st\<lparr>page := p\<rparr>) data)
          [0 ..< pageCount_spec (length rows) ?r] = map Inr ?pages"
    by simp
  have "concat (map body ?pages) = take (pageCount_spec (length rows) ?r * ?r) rows"
    using concat_pages[of ?r rows "pageCount_spec (length rows) ?r"]
    by (simp add: o_def slice_take_drop)
  also have "\<dots> = rows"
    using pageCount_covers[OF assms, of "length rows"] by simp
  finally have 2: "concat (map body ?pages) = rows" .
  from rows 1 2 show ?thesis by blast
qed

theorem pages_cover_rows_witness:
  "0 < rowsPerPage initial
   \<and> (\<exists>rows pages. sortedAndFilteredData lowerASCII notNumeric initial
                        [chad, benin, antarctica, chad, benin, antarctica] = Inr rows
     \<and> map (\<lambda>p. Countries lowerASCII notNumeric (initial\<lparr>page := p\<rparr>)
                   [chad, benin, antarctica, chad, benin, antarctica])
          [0 ..< pageCount_spec (length rows) (rowsPerPage initial)] = map Inr pages
     \<and> concat (map body pages) = rows)"
proof -
  have "0 < rowsPerPage initial" by (simp add: initial_def)
  then show ?thesis
    using pages_cover_rows[of initial lowerASCII notNumeric] by blast
qed

text \<open>
  C8. A sort request on a column other than the current sort column sets the direction to
  ascending, whatever it was, and makes that column the sort column.
\<close>

theorem handleRequestSort_other_column:
  "property \<noteq> orderBy st \<Longrightarrow>
     order (handleRequestSort st property) = Asc \<and> orderBy (handleRequestSort st property) = property"
  by (simp add: handleRequestSort_def)

theorem handleRequestSort_other_column_witness:
  "Capital \<noteq> orderBy (initial\<lparr>order := Desc\<rparr>)
   \<and> order (handleRequestSort (initial\<lparr>order := Desc\<rparr>) Capital) = Asc
   \<and> orderBy (handleRequestSort (initial\<lparr>order := Desc\<rparr>) Capital) = Capital"
  using handleRequestSort_other_column[of Capital "initial\<lparr>order := Desc\<rparr>"]
  by (simp add: initial_def)

text \<open>
  C9. A filter change leaves the page index as it is, and in every state in which the
  number of filtered rows is at most \<open>page * rowsPerPage\<close> the table body is empty.
\<close>

theorem filter_change_keeps_page:
  "page (handleFilterChange st filterKey v) = page st
   \<and> (\<exists>rows vw. sortedAndFilteredData lower num st data = Inr rows
         \<and> Countries lower num st data = Inr vw
         \<and> (length rows \<le> page st * rowsPerPage st \<longrightarrow> body vw = []))"
proof -
  obtain rows where rows: "sortedAndFilteredData lower num st data = Inr rows"
    using sortedAndFilteredData_Inr by blast
  then show ?thesis
    by (simp add: handleFilterChange_def Countries_Inr slice_empty)
qed

theorem filter_change_keeps_page_witness:
  "page (handleFilterChange (initial\<lparr>page := 1\<rparr>) Currency (str ''x'')) = 1
   \<and> sortedAndFilteredData lowerASCII notNumeric
        (handleFilterChange (initial\<lparr>page := 1\<rparr>) Currency (str ''x''))
        [benin, antarctica, chad] = Inr [benin, chad]
   \<and> map_sum id body (Countries lowerASCII notNumeric
        (handleFilterChange (initial\<lparr>page := 1\<rparr>) Currency (str ''x''))
        [benin, antarctica, chad]) = Inr []"
proof -
  let ?st = "handleFilterChange (initial\<lparr>page := 1\<rparr>) Currency (str ''x'')"
  have rows: "sortedAndFilteredData lowerASCII notNumeric ?st [benin, antarctica, chad] = Inr [benin, chad]"
    by code_simp
  have pg: "page ?st = 1" "rowsPerPage ?st = 5"
    by (simp_all add: handleFilterChange_def initial_def)
  show ?thesis
    using filter_change_keeps_page[of ?st Name "[]" lowerASCII notNumeric "[benin, antarctica, chad]"]
      filter_change_keeps_page[of "initial\<lparr>page := 1\<rparr>" Currency "str ''x''" lowerASCII notNumeric "[]"]
      rows pg
    by auto
qed

text \<open>
  C10. The number of padding rows is
  \<open>rowsPerPage - min(rowsPerPage, count - page * rowsPerPage)\<close>. It lies between \<open>0\<close> and
  \<open>rowsPerPage\<close> when \<open>page * rowsPerPage \<le> count\<close>, it is \<open>2\<close> for five rows per page and
  three rows on page \<open>0\<close>, and it is larger than \<open>rowsPerPage\<close> when
  \<open>count < page * rowsPerPage\<close>.
\<close>

theorem emptyRows_bounds:
  "\<exists>v. Countries lower num st data = Inr v
     \<and> padding v = int (rowsPerPage st)
                    - min (int (rowsPerPage st)) (int (count v) - int (page st) * int (rowsPerPage st))
     \<and> (page st * rowsPerPage st \<le> count v \<longrightarrow> 0 \<le> padding v \<and> padding v \<le> int (rowsPerPage st))
     \<and> (count v < page st * rowsPerPage st \<longrightarrow> int (rowsPerPage st) < padding v)
     \<and> emptyRows 5 3 0 = 2"
proof -
  obtain rows where rows: "sortedAndFilteredData lower num st data = Inr rows"
    using sortedAndFilteredData_Inr by blast
  have le: "int (page st) * int (rowsPerPage st) \<le> int (length rows)"
    if "page st * rowsPerPage st \<le> length rows"
    using that by (metis of_nat_le_iff of_nat_mult)
  have gt: "int (length rows) < int (page st) * int (rowsPerPage st)"
    if "length rows < page st * rowsPerPage st"
    using that by (metis of_nat_less_iff of_nat_mult)
  show ?thesis
    using rows le gt by (auto simp: Countries_Inr emptyRows_def min_def)
qed

theorem emptyRows_bounds_witness:
  "map_sum id padding (Countries lowerASCII notNumeric initial [benin, antarctica, chad]) = Inr 2
   \<and> map_sum id padding
         (Countries lowerASCII notNumeric (initial\<lparr>page := 2\<rparr>) [benin, antarctica, chad]) = Inr 12"
proof -
  have rows: "sortedAndFilteredData lowerASCII notNumeric initial [benin, antarctica, chad]
              = Inr [antarctica, benin, chad]"
    by code_simp
  then have n: "sortedAndFilteredData lowerASCII notNumeric (initial\<lparr>page := 2\<rparr>)
                  [benin, antarctica, chad] = Inr [antarctica, benin, chad]"
    by simp
  have st: "page initial = 0" "rowsPerPage initial = 5"
    by (simp_all add: initial_def)
  show ?thesis
    using emptyRows_bounds[of lowerASCII notNumeric initial "[benin, antarctica, chad]"]
      emptyRows_bounds[of lowerASCII notNumeric "initial\<lparr>page := 2\<rparr>" "[benin, antarctica, chad]"]
    by (auto simp: Countries_Inr[OF rows] Countries_Inr[OF n] st)
qed

end
